theory Spec2Isabelle
  imports Main "HOL-Library.Word" "HOL-Library.Multiset"
begin

section \<open>The polling file watcher of pkg/watchman\<close>

text \<open>
  A shallow embedding of \<^verbatim>\<open>pkg/watchman/watchman.go\<close>. The Go package keeps
  descriptors behind pointers (\<^verbatim>\<open>*File\<close>) and mutates them in place, so the model has an
  explicit store from addresses to \<^verbatim>\<open>File\<close> values; the registry of a watcher is a list
  of addresses, as the slice \<^verbatim>\<open>[]*File\<close> is. The operating system is a parameter: what
  \<^verbatim>\<open>os.Stat\<close> and \<^verbatim>\<open>os.Open\<close> answer for a path; it is fixed for the duration of
  one call. A reader is a function of the opened file. A send on a channel is modelled by
  the value sent: a scan pass returns the errors and the events it delivered, in order,
  as a consumer that receives every value sees them. The goroutine of \<^verbatim>\<open>Start\<close>, the
  ticker and \<^verbatim>\<open>Stop\<close> are not modelled. The repository holds a second copy of the
  package in which \<^verbatim>\<open>NewFile\<close> does not read the file and the pass does not store the
  new snapshot; the model follows \<^verbatim>\<open>pkg/watchman/watchman.go\<close>.
\<close>

subsection \<open>Data\<close>

type_synonym byte = "8 word"

type_synonym FileData = "byte list"

text \<open>\<^verbatim>\<open>time.Duration\<close> is a 64-bit count of nanoseconds.\<close>

type_synonym Duration = "64 word"

definition Second :: Duration where
  "Second = 1000000000"

text \<open>
  Errors made by the standard library (\<^verbatim>\<open>os.Stat\<close>, \<^verbatim>\<open>os.Open\<close>, reading a handle)
  are \<^verbatim>\<open>*PathError\<close> values: operation, path and cause. They are a type of their own:
  no value the library returns is one of the package's three sentinel variables.
\<close>

datatype os_error = PathError (Op: string) (Path: string) (Cause: string)

text \<open>
  The values of Go's \<^verbatim>\<open>error\<close> that the package meets: its three sentinels, the errors
  of the standard library, and whatever a reader or an option of the caller returns.
\<close>

datatype error =
    ErrInvalidFd
  | ErrInvalidFile
  | ErrInvalidDuration
  | OsError os_error
  | UserError string

text \<open>
  An open handle \<^verbatim>\<open>*os.File\<close> is used once, by one reader, which consumes it; it is
  modelled by what reading it to the end (\<^verbatim>\<open>ioutil.ReadAll\<close>) yields.
\<close>

datatype os_File = OsFile (ioutil_ReadAll: "os_error + FileData")

record FileSystem =
  os_Stat :: "string \<Rightarrow> os_error option"
  os_Open :: "string \<Rightarrow> os_error + os_File"

type_synonym FileReader = "os_File \<Rightarrow> error + FileData"

text \<open>The field \<^verbatim>\<open>reader\<close> is a function value; \<open>None\<close> is Go's \<^verbatim>\<open>nil\<close>.\<close>

record File =
  fileName :: string
  fileData :: FileData
  reader :: "FileReader option"
  tag :: string

text \<open>
  A \<^verbatim>\<open>*File\<close> is an address; an address the store does not hold is the \<^verbatim>\<open>nil\<close>
  pointer, and reading or writing through it panics.
\<close>

type_synonym File_ptr = nat

type_synonym heap = "File_ptr \<rightharpoonup> File"

datatype Event = Event (Files: "File_ptr list")

text \<open>
  Of the fields of \<^verbatim>\<open>Watchman\<close> the registry and the poll interval are modelled. The
  ticker and the three channels are allocated by \<^verbatim>\<open>Start\<close>; none of the operations below
  reads them, and what a scan pass sends on them is the result of \<open>publishChanges\<close>.
\<close>

record Watchman =
  files :: "File_ptr list"
  pollInterval :: Duration

type_synonym NewOpt = "Watchman \<Rightarrow> Watchman \<times> error option"

type_synonym NewFileOpt = "File \<Rightarrow> File \<times> error option"

type_synonym FileFilter = "heap \<Rightarrow> File_ptr \<Rightarrow> bool"

subsection \<open>Readers\<close>

definition ReadFile :: FileReader where
  "ReadFile f =
     (case ioutil_ReadAll f of
        Inl err \<Rightarrow> Inl (OsError err)
      | Inr data \<Rightarrow> Inr data)"

text \<open>The digest \<^verbatim>\<open>md5.Sum\<close> belongs to the standard library and is a parameter.\<close>

definition MD5Checksum :: "(FileData \<Rightarrow> FileData) \<Rightarrow> FileReader" where
  "MD5Checksum md5_Sum f =
     (case ioutil_ReadAll f of
        Inl err \<Rightarrow> Inl (OsError err)
      | Inr data \<Rightarrow> Inr (md5_Sum data))"

subsection \<open>Options and constructors\<close>

text \<open>
  An option mutates the object it is given and returns an error or \<^verbatim>\<open>nil\<close>; the model
  returns both the object and the error.
\<close>

definition WithPollInterval :: "Duration \<Rightarrow> NewOpt" where
  "WithPollInterval duration w =
     (if duration = 0 then (w, Some ErrInvalidDuration)
      else (w\<lparr>pollInterval := duration\<rparr>, None))"

definition WithReader :: "FileReader \<Rightarrow> NewFileOpt" where
  "WithReader rd f = (f\<lparr>reader := Some rd\<rparr>, None)"

definition WithTag :: "string \<Rightarrow> NewFileOpt" where
  "WithTag t f = (f\<lparr>tag := t\<rparr>, None)"

text \<open>The loop of \<^verbatim>\<open>New\<close> calls each option and drops what it returns.\<close>

fun New_opts :: "NewOpt list \<Rightarrow> Watchman \<Rightarrow> Watchman" where
  "New_opts [] w = w"
| "New_opts (opt # opts) w = New_opts opts (fst (opt w))"

definition New :: "NewOpt list \<Rightarrow> Watchman" where
  "New opts =
     (let w = New_opts opts \<lparr>files = [], pollInterval = 0\<rparr>
      in if pollInterval w = 0 then w\<lparr>pollInterval := 10 * Second\<rparr> else w)"

text \<open>The loop of \<^verbatim>\<open>NewFile\<close> stops at the first option that returns an error.\<close>

fun NewFile_opts :: "NewFileOpt list \<Rightarrow> File \<Rightarrow> error + File" where
  "NewFile_opts [] f = Inr f"
| "NewFile_opts (opt # opts) f =
     (case opt f of
        (f', Some err) \<Rightarrow> Inl err
      | (f', None) \<Rightarrow> NewFile_opts opts f')"

text \<open>
  \<^verbatim>\<open>NewFile\<close> returns the address of a fresh \<^verbatim>\<open>File\<close>; the model returns the value
  that cell holds, or the error (and then no descriptor).
\<close>

definition NewFile :: "FileSystem \<Rightarrow> string \<Rightarrow> NewFileOpt list \<Rightarrow> error + File" where
  "NewFile fs name opts =
     (case os_Stat fs name of
        Some err \<Rightarrow> Inl (OsError err)
      | None \<Rightarrow>
         (case NewFile_opts opts \<lparr>fileName = name, fileData = [], reader = None, tag = []\<rparr> of
            Inl err \<Rightarrow> Inl err
          | Inr f0 \<Rightarrow>
             (let rd = (case reader f0 of None \<Rightarrow> ReadFile | Some r \<Rightarrow> r);
                  f = f0\<lparr>reader := Some rd\<rparr>
              in case os_Open fs (fileName f) of
                   Inl err \<Rightarrow> Inl (OsError err)
                 | Inr openFile \<Rightarrow>
                    (case rd openFile of
                       Inl err \<Rightarrow> Inl err
                     | Inr data \<Rightarrow> Inr (f\<lparr>fileData := data\<rparr>)))))"

subsection \<open>The scan pass\<close>

text \<open>
  One pass over the registry. The state of the loop is the store, the errors sent on
  \<^verbatim>\<open>errChan\<close> so far and the local \<^verbatim>\<open>event\<close>. \<open>None\<close> is a panic: a \<^verbatim>\<open>nil\<close>
  descriptor, or a \<^verbatim>\<open>nil\<close> reader called on an opened file. \<^verbatim>\<open>bytes.Equal\<close> is
  equality of the byte sequences.
\<close>

fun publishChanges_loop ::
  "FileSystem \<Rightarrow> File_ptr list \<Rightarrow> heap \<Rightarrow> error list \<Rightarrow> Event \<Rightarrow> (heap \<times> error list \<times> Event) option"
where
  "publishChanges_loop fs [] h errs event = Some (h, errs, event)"
| "publishChanges_loop fs (f # rest) h errs event =
     (case h f of
        None \<Rightarrow> None
      | Some fv \<Rightarrow>
         (case os_Open fs (fileName fv) of
            Inl err \<Rightarrow> publishChanges_loop fs rest h (errs @ [OsError err]) event
          | Inr openFile \<Rightarrow>
             (case reader fv of
                None \<Rightarrow> None
              | Some rd \<Rightarrow>
                 (case rd openFile of
                    Inl err \<Rightarrow> publishChanges_loop fs rest h (errs @ [err]) event
                  | Inr data \<Rightarrow>
                     if data \<noteq> fileData fv
                     then publishChanges_loop fs rest (h(f \<mapsto> fv\<lparr>fileData := data\<rparr>)) errs
                            (Event (Files event @ [f]))
                     else publishChanges_loop fs rest h errs event))))"

text \<open>
  The result of a pass: the store, the errors delivered on \<^verbatim>\<open>errChan\<close> and the events
  delivered on \<^verbatim>\<open>eventChan\<close> (none or one).
\<close>

definition publishChanges ::
  "FileSystem \<Rightarrow> Watchman \<Rightarrow> heap \<Rightarrow> (heap \<times> error list \<times> Event list) option"
where
  "publishChanges fs w h =
     (case publishChanges_loop fs (files w) h [] (Event []) of
        None \<Rightarrow> None
      | Some (h', errs, event) \<Rightarrow>
          if length (Files event) > 0 then Some (h', errs, [event])
          else Some (h', errs, []))"

subsection \<open>The registry\<close>

definition AddFile :: "Watchman \<Rightarrow> File_ptr \<Rightarrow> Watchman \<times> error option" where
  "AddFile w file = (w\<lparr>files := files w @ [file]\<rparr>, None)"

text \<open>
  The loop of \<^verbatim>\<open>RemoveFile\<close>, from index \<open>idx\<close> on: at the first slot that holds
  the pointer, the last element is written over it and the slice loses its last slot.
\<close>

function RemoveFile_loop :: "nat \<Rightarrow> File_ptr list \<Rightarrow> File_ptr \<Rightarrow> File_ptr list" where
  "RemoveFile_loop idx fls file =
     (if idx < length fls
      then (if fls ! idx = file
            then take (length fls - 1) (fls[idx := fls ! (length fls - 1)])
            else RemoveFile_loop (idx + 1) fls file)
      else fls)"
  by pat_completeness auto
termination
  by (relation "measure (\<lambda>(idx, fls, file). length fls - idx)") auto

definition RemoveFile :: "Watchman \<Rightarrow> File_ptr \<Rightarrow> Watchman" where
  "RemoveFile w file = w\<lparr>files := RemoveFile_loop 0 (files w) file\<rparr>"

fun Find_loop :: "FileFilter \<Rightarrow> heap \<Rightarrow> File_ptr list \<Rightarrow> File_ptr list \<Rightarrow> File_ptr list" where
  "Find_loop flt h [] ret = ret"
| "Find_loop flt h (f # rest) ret =
     (if flt h f then Find_loop flt h rest (ret @ [f]) else Find_loop flt h rest ret)"

definition Find :: "Watchman \<Rightarrow> heap \<Rightarrow> FileFilter \<Rightarrow> File_ptr list" where
  "Find w h flt = Find_loop flt h (files w) []"

subsection \<open>Accessors\<close>

definition SetTag :: "heap \<Rightarrow> File_ptr \<Rightarrow> string \<Rightarrow> heap option" where
  "SetTag h f t =
     (case h f of
        None \<Rightarrow> None
      | Some fv \<Rightarrow> Some (h(f \<mapsto> fv\<lparr>tag := t\<rparr>)))"

definition GetTag :: "heap \<Rightarrow> File_ptr \<Rightarrow> string option" where
  "GetTag h f = (case h f of None \<Rightarrow> None | Some fv \<Rightarrow> Some (tag fv))"


subsection \<open>What a pass observes of one descriptor\<close>

text \<open>
  The definitions of this subsection are vocabulary for the theorems; the scan pass above
  does not use them. \<open>snapshot fs fv\<close> is what one iteration of the loop obtains for
  the descriptor \<open>fv\<close>: the error of \<^verbatim>\<open>os.Open\<close>, or what the reader returns on
  the opened file; \<open>None\<close> when a \<^verbatim>\<open>nil\<close> reader would be called.
\<close>

definition snapshot :: "FileSystem \<Rightarrow> File \<Rightarrow> (error + FileData) option" where
  "snapshot fs fv =
     (case os_Open fs (fileName fv) of
        Inl err \<Rightarrow> Some (Inl (OsError err))
      | Inr openFile \<Rightarrow>
         (case reader fv of
            None \<Rightarrow> None
          | Some rd \<Rightarrow> Some (rd openFile)))"

text \<open>The descriptor after an iteration that read it.\<close>

definition scanned :: "FileSystem \<Rightarrow> File \<Rightarrow> File" where
  "scanned fs fv =
     (case snapshot fs fv of
        Some (Inr data) \<Rightarrow> fv\<lparr>fileData := data\<rparr>
      | _ \<Rightarrow> fv)"

text \<open>A change is detected: the read succeeds and differs from the stored snapshot.\<close>

definition changed :: "FileSystem \<Rightarrow> heap \<Rightarrow> File_ptr \<Rightarrow> bool" where
  "changed fs h f =
     (case h f of
        None \<Rightarrow> False
      | Some fv \<Rightarrow>
         (case snapshot fs fv of
            Some (Inr data) \<Rightarrow> data \<noteq> fileData fv
          | _ \<Rightarrow> False))"

text \<open>The error of a failed open or a failed reader, if any.\<close>

definition failure :: "FileSystem \<Rightarrow> heap \<Rightarrow> File_ptr \<Rightarrow> error option" where
  "failure fs h f =
     (case h f of
        None \<Rightarrow> None
      | Some fv \<Rightarrow>
         (case snapshot fs fv of
            Some (Inl err) \<Rightarrow> Some err
          | _ \<Rightarrow> None))"

text \<open>
  What \<^verbatim>\<open>NewFile\<close> guarantees of the pointer it returns: it is not \<^verbatim>\<open>nil\<close> and
  the descriptor has a reader.
\<close>

definition valid :: "heap \<Rightarrow> File_ptr \<Rightarrow> bool" where
  "valid h f =
     (case h f of
        None \<Rightarrow> False
      | Some fv \<Rightarrow> (case reader fv of None \<Rightarrow> False | Some rd \<Rightarrow> True))"

subsection \<open>Concrete scenarios\<close>

definition bytes_v1 :: FileData where
  "bytes_v1 = [0x76, 0x31]"

definition bytes_v2 :: FileData where
  "bytes_v2 = [0x76, 0x32]"

definition enoent :: "string \<Rightarrow> string \<Rightarrow> os_error" where
  "enoent opn path = PathError opn path ''no such file or directory''"

text \<open>
  A file system given by its regular files: each path with what reading the file yields.
  Every other path does not exist.
\<close>

definition disk :: "(string \<times> (os_error + FileData)) list \<Rightarrow> FileSystem" where
  "disk entries =
     \<lparr>os_Stat = (\<lambda>p. case map_of entries p of
                       None \<Rightarrow> Some (enoent ''stat'' p)
                     | Some c \<Rightarrow> None),
      os_Open = (\<lambda>p. case map_of entries p of
                       None \<Rightarrow> Inl (enoent ''open'' p)
                     | Some c \<Rightarrow> Inr (OsFile c))\<rparr>"

definition file_a :: File where
  "file_a = \<lparr>fileName = ''a.txt'', fileData = bytes_v1, reader = Some ReadFile, tag = []\<rparr>"

definition file_b :: File where
  "file_b = \<lparr>fileName = ''b.txt'', fileData = bytes_v1, reader = Some ReadFile, tag = []\<rparr>"

definition heap_ab :: heap where
  "heap_ab = [1 \<mapsto> file_a, 2 \<mapsto> file_b]"

text \<open>A store with a second descriptor for the path of the first.\<close>

definition heap_aa :: heap where
  "heap_aa = [1 \<mapsto> file_a, 2 \<mapsto> file_b, 3 \<mapsto> file_a]"

definition watch_ab :: Watchman where
  "watch_ab = \<lparr>files = [1, 2], pollInterval = 10 * Second\<rparr>"

text \<open>Four states of the disk: two files; the first rewritten; the first gone; the second unreadable.\<close>

definition disk_v1 :: FileSystem where
  "disk_v1 = disk [(''a.txt'', Inr bytes_v1), (''b.txt'', Inr bytes_v1)]"

definition disk_v2 :: FileSystem where
  "disk_v2 = disk [(''a.txt'', Inr bytes_v2), (''b.txt'', Inr bytes_v1)]"

definition disk_no_a :: FileSystem where
  "disk_no_a = disk [(''b.txt'', Inr bytes_v1)]"

definition disk_bad_b :: FileSystem where
  "disk_bad_b =
     disk [(''a.txt'', Inr bytes_v2),
           (''b.txt'', Inl (PathError ''read'' ''b.txt'' ''input/output error''))]"

section \<open>Properties\<close>

subsection \<open>The loop of a scan pass\<close>

lemma snapshot_fileData: "snapshot fs (fv\<lparr>fileData := d\<rparr>) = snapshot fs fv"
  by (simp add: snapshot_def split: sum.splits)

lemma scanned_idem: "scanned fs (scanned fs fv) = scanned fs fv"
  by (simp add: scanned_def snapshot_fileData split: option.splits sum.splits)

lemma loop_Cons:
  "publishChanges_loop fs (p # ps) h errs ev =
     (case h p of
        None \<Rightarrow> None
      | Some fv \<Rightarrow>
         (case snapshot fs fv of
            None \<Rightarrow> None
          | Some (Inl err) \<Rightarrow> publishChanges_loop fs ps h (errs @ [err]) ev
          | Some (Inr data) \<Rightarrow>
             if data \<noteq> fileData fv
             then publishChanges_loop fs ps (h(p \<mapsto> fv\<lparr>fileData := data\<rparr>)) errs
                    (Event (Files ev @ [p]))
             else publishChanges_loop fs ps h errs ev))"
  by (simp add: snapshot_def split: option.splits sum.splits)

declare publishChanges_loop.simps(2) [simp del]

lemma changed_update:
  "h p = Some fv \<Longrightarrow> snapshot fs fv = Some (Inr d) \<Longrightarrow>
   changed fs (h(p \<mapsto> fv\<lparr>fileData := d\<rparr>)) q = (q \<noteq> p \<and> changed fs h q)"
  by (simp add: changed_def snapshot_fileData)

lemma failure_update:
  "h p = Some fv \<Longrightarrow> failure fs (h(p \<mapsto> fv\<lparr>fileData := d\<rparr>)) = failure fs h"
  by (rule ext) (simp add: failure_def snapshot_fileData)

lemma valid_update:
  "h p = Some fv \<Longrightarrow> valid (h(p \<mapsto> fv\<lparr>fileData := d\<rparr>)) = valid h"
  by (rule ext) (simp add: valid_def)

lemma valid_snapshot:
  "valid h p \<Longrightarrow> \<exists>fv r. h p = Some fv \<and> snapshot fs fv = Some r"
  by (auto simp: valid_def snapshot_def split: option.splits sum.splits)

lemma loop_heap:
  "publishChanges_loop fs ps h errs ev = Some (h', errs', ev') \<Longrightarrow>
   h' q = (if q \<in> set ps then map_option (scanned fs) (h q) else h q)"
proof (induction ps arbitrary: h errs ev)
  case Nil
  then show ?case by simp
next
  case (Cons p ps)
  from Cons.prems obtain fv r where fv: "h p = Some fv" and r: "snapshot fs fv = Some r"
    by (auto simp: loop_Cons split: option.splits)
  show ?case
  proof (cases "\<exists>d. r = Inr d \<and> d \<noteq> fileData fv")
    case True
    then obtain d where d: "r = Inr d" "d \<noteq> fileData fv" by blast
    let ?h1 = "h(p \<mapsto> fv\<lparr>fileData := d\<rparr>)"
    from Cons.prems fv r d
    have "publishChanges_loop fs ps ?h1 errs (Event (Files ev @ [p])) = Some (h', errs', ev')"
      by (simp add: loop_Cons)
    from Cons.IH [OF this]
    have h': "h' q = (if q \<in> set ps then map_option (scanned fs) (?h1 q) else ?h1 q)" .
    have sc: "scanned fs fv = fv\<lparr>fileData := d\<rparr>"
      using r d by (simp add: scanned_def)
    have "scanned fs (fv\<lparr>fileData := d\<rparr>) = fv\<lparr>fileData := d\<rparr>"
      using scanned_idem [of fs fv] sc by simp
    with h' fv sc show ?thesis by simp
  next
    case False
    with Cons.prems fv r obtain errs1
      where "publishChanges_loop fs ps h errs1 ev = Some (h', errs', ev')"
      by (auto simp: loop_Cons split: sum.splits if_splits)
    from Cons.IH [OF this]
    have h': "h' q = (if q \<in> set ps then map_option (scanned fs) (h q) else h q)" .
    have "scanned fs fv = fv"
      using r False by (auto simp: scanned_def split: sum.splits)
    with h' fv show ?thesis by simp
  qed
qed

lemma loop_batch:
  "publishChanges_loop fs ps h errs ev = Some (h', errs', ev') \<Longrightarrow>
   \<exists>b. Files ev' = Files ev @ b \<and> set b = {q \<in> set ps. changed fs h q}"
proof (induction ps arbitrary: h errs ev)
  case Nil
  then show ?case by simp
next
  case (Cons p ps)
  from Cons.prems obtain fv r where fv: "h p = Some fv" and r: "snapshot fs fv = Some r"
    by (auto simp: loop_Cons split: option.splits)
  show ?case
  proof (cases "\<exists>d. r = Inr d \<and> d \<noteq> fileData fv")
    case True
    then obtain d where d: "r = Inr d" "d \<noteq> fileData fv" by blast
    let ?h1 = "h(p \<mapsto> fv\<lparr>fileData := d\<rparr>)"
    from Cons.prems fv r d
    have "publishChanges_loop fs ps ?h1 errs (Event (Files ev @ [p])) = Some (h', errs', ev')"
      by (simp add: loop_Cons)
    from Cons.IH [OF this] obtain b
      where b0: "Files ev' = Files (Event (Files ev @ [p])) @ b"
        and b2: "set b = {q \<in> set ps. changed fs ?h1 q}"
      by blast
    from b0 have b1: "Files ev' = Files ev @ [p] @ b" by simp
    have ch: "changed fs h p"
      using fv r d by (simp add: changed_def)
    have "\<And>q. changed fs ?h1 q = (q \<noteq> p \<and> changed fs h q)"
      using fv r d by (simp add: changed_update)
    with b2 have "set b = {q \<in> set ps. q \<noteq> p \<and> changed fs h q}" by simp
    with ch have "set ([p] @ b) = {q \<in> set (p # ps). changed fs h q}" by auto
    with b1 show ?thesis by blast
  next
    case False
    with Cons.prems fv r obtain errs1
      where "publishChanges_loop fs ps h errs1 ev = Some (h', errs', ev')"
      by (auto simp: loop_Cons split: sum.splits if_splits)
    from Cons.IH [OF this] obtain b
      where b: "Files ev' = Files ev @ b" "set b = {q \<in> set ps. changed fs h q}"
      by blast
    have "\<not> changed fs h p"
      using fv r False by (auto simp: changed_def split: sum.splits)
    with b(2) have "set b = {q \<in> set (p # ps). changed fs h q}" by auto
    with b(1) show ?thesis by blast
  qed
qed

lemma loop_errs:
  "publishChanges_loop fs ps h errs ev = Some (h', errs', ev') \<Longrightarrow>
   errs' = errs @ List.map_filter (failure fs h) ps"
proof (induction ps arbitrary: h errs ev)
  case Nil
  then show ?case by simp
next
  case (Cons p ps)
  from Cons.prems obtain fv r where fv: "h p = Some fv" and r: "snapshot fs fv = Some r"
    by (auto simp: loop_Cons split: option.splits)
  show ?case
  proof (cases r)
    case (Inl e)
    with Cons.prems fv r
    have "publishChanges_loop fs ps h (errs @ [e]) ev = Some (h', errs', ev')"
      by (simp add: loop_Cons)
    from Cons.IH [OF this] have "errs' = (errs @ [e]) @ List.map_filter (failure fs h) ps" .
    moreover have "failure fs h p = Some e"
      using fv r Inl by (simp add: failure_def)
    ultimately show ?thesis by simp
  next
    case (Inr d)
    have fp: "failure fs h p = None"
      using fv r Inr by (simp add: failure_def)
    show ?thesis
    proof (cases "d \<noteq> fileData fv")
      case True
      let ?h1 = "h(p \<mapsto> fv\<lparr>fileData := d\<rparr>)"
      from Cons.prems fv r Inr True
      have "publishChanges_loop fs ps ?h1 errs (Event (Files ev @ [p])) = Some (h', errs', ev')"
        by (simp add: loop_Cons)
      from Cons.IH [OF this] have "errs' = errs @ List.map_filter (failure fs ?h1) ps" .
      moreover have "failure fs ?h1 = failure fs h"
        using fv by (rule failure_update)
      ultimately show ?thesis using fp by simp
    next
      case False
      with Cons.prems fv r Inr
      have "publishChanges_loop fs ps h errs ev = Some (h', errs', ev')"
        by (simp add: loop_Cons)
      from Cons.IH [OF this] fp show ?thesis by simp
    qed
  qed
qed

lemma loop_total:
  "list_all (valid h) ps \<Longrightarrow> publishChanges_loop fs ps h errs ev \<noteq> None"
proof (induction ps arbitrary: h errs ev)
  case Nil
  then show ?case by simp
next
  case (Cons p ps)
  from Cons.prems have "valid h p" by simp
  from valid_snapshot [OF this] obtain fv r
    where fv: "h p = Some fv" and r: "snapshot fs fv = Some r"
    by blast
  from Cons.prems have rest: "list_all (valid h) ps" by simp
  show ?case
  proof (cases "\<exists>d. r = Inr d \<and> d \<noteq> fileData fv")
    case True
    then obtain d where d: "r = Inr d" "d \<noteq> fileData fv" by blast
    let ?h1 = "h(p \<mapsto> fv\<lparr>fileData := d\<rparr>)"
    have "valid ?h1 = valid h"
      using fv by (rule valid_update)
    with rest have rest1: "list_all (valid ?h1) ps" by simp
    have "publishChanges_loop fs (p # ps) h errs ev =
          publishChanges_loop fs ps ?h1 errs (Event (Files ev @ [p]))"
      using fv r d by (simp add: loop_Cons)
    then show ?thesis
      using Cons.IH [OF rest1] by metis
  next
    case False
    have "\<exists>errs1. publishChanges_loop fs (p # ps) h errs ev =
            publishChanges_loop fs ps h errs1 ev"
    proof (cases r)
      case (Inl e)
      with fv r have "publishChanges_loop fs (p # ps) h errs ev =
            publishChanges_loop fs ps h (errs @ [e]) ev"
        by (simp add: loop_Cons)
      then show ?thesis by (rule exI)
    next
      case (Inr d)
      with False have "d = fileData fv" by simp
      with fv r Inr have "publishChanges_loop fs (p # ps) h errs ev =
            publishChanges_loop fs ps h errs ev"
        by (simp add: loop_Cons)
      then show ?thesis by (rule exI)
    qed
    then show ?thesis
      using Cons.IH [OF rest] by metis
  qed
qed


subsection \<open>The loop of RemoveFile\<close>

declare RemoveFile_loop.simps [simp del]

lemma RemoveFile_loop_absent:
  "\<forall>j. idx \<le> j \<and> j < length fls \<longrightarrow> fls ! j \<noteq> fl \<Longrightarrow> RemoveFile_loop idx fls fl = fls"
proof (induction idx fls fl rule: RemoveFile_loop.induct)
  case (1 idx fls fl)
  show ?case
  proof (cases "idx < length fls")
    case True
    with "1.prems" have ne: "fls ! idx \<noteq> fl" by simp
    from "1.prems" have "\<forall>j. idx + 1 \<le> j \<and> j < length fls \<longrightarrow> fls ! j \<noteq> fl" by simp
    with "1.IH" [OF True ne] have "RemoveFile_loop (idx + 1) fls fl = fls" by blast
    with True ne show ?thesis by (subst RemoveFile_loop.simps) simp
  next
    case False
    then show ?thesis by (subst RemoveFile_loop.simps) simp
  qed
qed

lemma RemoveFile_loop_first:
  "idx \<le> i \<Longrightarrow> i < length fls \<Longrightarrow> fls ! i = fl \<Longrightarrow>
   \<forall>j. idx \<le> j \<and> j < i \<longrightarrow> fls ! j \<noteq> fl \<Longrightarrow>
   RemoveFile_loop idx fls fl = take (length fls - 1) (fls[i := fls ! (length fls - 1)])"
proof (induction idx fls fl rule: RemoveFile_loop.induct)
  case (1 idx fls fl)
  from "1.prems" have lt: "idx < length fls" by simp
  show ?case
  proof (cases "fls ! idx = fl")
    case True
    with "1.prems" have "i = idx"
      by (metis le_neq_implies_less order_refl)
    with lt True show ?thesis by (subst RemoveFile_loop.simps) simp
  next
    case False
    with "1.prems" have "idx + 1 \<le> i"
      by (metis Suc_eq_plus1 Suc_leI le_neq_implies_less)
    moreover from "1.prems" have "\<forall>j. idx + 1 \<le> j \<and> j < i \<longrightarrow> fls ! j \<noteq> fl" by simp
    ultimately have "RemoveFile_loop (idx + 1) fls fl =
        take (length fls - 1) (fls[i := fls ! (length fls - 1)])"
      using "1.IH" [OF lt False] "1.prems" by blast
    with lt False show ?thesis by (subst RemoveFile_loop.simps) simp
  qed
qed

lemma mset_swap_remove:
  assumes "i < length fls"
  shows "mset (take (length fls - 1) (fls[i := fls ! (length fls - 1)])) = mset fls - {#fls ! i#}"
proof -
  from assms have "fls \<noteq> []" by auto
  then obtain bl l where fls: "fls = bl @ [l]"
    by (metis append_butlast_last_id)
  show ?thesis
  proof (cases "i < length bl")
    case True
    then have "bl ! i \<in># mset bl" by simp
    with True show ?thesis
      by (simp add: fls nth_append list_update_append mset_update)
  next
    case False
    with assms fls have "i = length bl" by simp
    then show ?thesis by (simp add: fls nth_append)
  qed
qed

lemma first_index:
  assumes "x \<in> set xs"
  shows "\<exists>i<length xs. xs ! i = x \<and> (\<forall>j<i. xs ! j \<noteq> x)"
proof -
  from assms have "\<exists>i. i < length xs \<and> xs ! i = x"
    by (simp add: in_set_conv_nth)
  then obtain i where i: "i < length xs \<and> xs ! i = x"
    and least: "\<forall>j<i. \<not> (j < length xs \<and> xs ! j = x)"
    using exists_least_iff [of "\<lambda>i. i < length xs \<and> xs ! i = x"] by blast
  from i least have "\<forall>j<i. xs ! j \<noteq> x" by auto
  with i show ?thesis by blast
qed

lemma RemoveFile_loop_present:
  assumes "fl \<in> set fls"
  shows "\<exists>i<length fls. fls ! i = fl \<and> (\<forall>j<i. fls ! j \<noteq> fl) \<and>
           RemoveFile_loop 0 fls fl = take (length fls - 1) (fls[i := fls ! (length fls - 1)])"
proof -
  from first_index [OF assms] obtain i
    where i: "i < length fls" "fls ! i = fl" "\<forall>j<i. fls ! j \<noteq> fl" by blast
  then have "RemoveFile_loop 0 fls fl = take (length fls - 1) (fls[i := fls ! (length fls - 1)])"
    using RemoveFile_loop_first [of 0 i fls fl] by simp
  with i show ?thesis by blast
qed

lemma RemoveFile_loop_notin:
  "fl \<notin> set fls \<Longrightarrow> RemoveFile_loop 0 fls fl = fls"
  using RemoveFile_loop_absent [of 0 fls fl] by (auto simp: in_set_conv_nth)

lemma RemoveFile_loop_mset:
  "mset (RemoveFile_loop 0 fls fl) = mset fls - {#fl#}"
proof (cases "fl \<in> set fls")
  case True
  from RemoveFile_loop_present [OF True] obtain i
    where "i < length fls" "fls ! i = fl"
      "RemoveFile_loop 0 fls fl = take (length fls - 1) (fls[i := fls ! (length fls - 1)])"
    by blast
  then show ?thesis using mset_swap_remove [of i fls] by simp
next
  case False
  then show ?thesis by (simp add: RemoveFile_loop_notin)
qed

lemma swap_remove_butlast:
  "fls \<noteq> [] \<Longrightarrow>
   take (length fls - 1) (fls[i := fls ! (length fls - 1)]) = butlast (fls[i := last fls])"
  by (simp add: butlast_conv_take last_conv_nth)

lemma RemoveFile_loop_other:
  "g \<noteq> fl \<Longrightarrow> count_list (RemoveFile_loop 0 fls fl) g = count_list fls g"
proof -
  assume "g \<noteq> fl"
  then have "count (mset fls - {#fl#}) g = count (mset fls) g" by simp
  then show ?thesis
    using RemoveFile_loop_mset [of fls fl] by (metis count_mset)
qed

lemma RemoveFile_loop_self:
  "count_list (RemoveFile_loop 0 fls fl) fl = count_list fls fl - 1"
proof -
  have "count (mset (RemoveFile_loop 0 fls fl)) fl = count (mset fls) fl - 1"
    by (simp add: RemoveFile_loop_mset)
  then show ?thesis by (simp add: count_mset)
qed

subsection \<open>A scan pass\<close>

lemma publishChanges_Some:
  assumes "publishChanges fs w h = Some (h', errs, evs)"
  shows "\<exists>ev. publishChanges_loop fs (files w) h [] (Event []) = Some (h', errs, ev) \<and>
           evs = (if Files ev = [] then [] else [ev])"
  using assms by (auto simp: publishChanges_def split: option.splits if_splits)

lemma publishChanges_heap:
  assumes "publishChanges fs w h = Some (h', errs, evs)"
  shows "h' q = (if q \<in> set (files w) then map_option (scanned fs) (h q) else h q)"
proof -
  from publishChanges_Some [OF assms] obtain ev
    where "publishChanges_loop fs (files w) h [] (Event []) = Some (h', errs, ev)" by blast
  then show ?thesis by (rule loop_heap)
qed

lemma publishChanges_errs:
  assumes "publishChanges fs w h = Some (h', errs, evs)"
  shows "errs = List.map_filter (failure fs h) (files w)"
proof -
  from publishChanges_Some [OF assms] obtain ev
    where "publishChanges_loop fs (files w) h [] (Event []) = Some (h', errs, ev)" by blast
  from loop_errs [OF this] show ?thesis by simp
qed

lemma publishChanges_events:
  assumes "publishChanges fs w h = Some (h', errs, evs)"
  shows "\<exists>ev. set (Files ev) = {q \<in> set (files w). changed fs h q} \<and>
           evs = (if Files ev = [] then [] else [ev])"
proof -
  from publishChanges_Some [OF assms] obtain ev
    where ev: "publishChanges_loop fs (files w) h [] (Event []) = Some (h', errs, ev)"
      and evs: "evs = (if Files ev = [] then [] else [ev])" by blast
  from loop_batch [OF ev] have "set (Files ev) = {q \<in> set (files w). changed fs h q}"
    by simp
  with evs show ?thesis by blast
qed

lemma publishChanges_total:
  assumes "list_all (valid h) (files w)"
  shows "\<exists>h' errs evs. publishChanges fs w h = Some (h', errs, evs)"
proof -
  from loop_total [OF assms]
  obtain h' errs ev
    where "publishChanges_loop fs (files w) h [] (Event []) = Some (h', errs, ev)"
    by (metis not_None_eq prod_cases3)
  then show ?thesis by (simp add: publishChanges_def)
qed

lemma publishChanges_unchanged:
  assumes "publishChanges fs w h = Some (h', errs, evs)" and "\<not> changed fs h f"
  shows "\<forall>ev\<in>set evs. f \<notin> set (Files ev)"
proof -
  from publishChanges_events [OF assms(1)] obtain ev
    where "set (Files ev) = {q \<in> set (files w). changed fs h q}"
      and "evs = (if Files ev = [] then [] else [ev])" by blast
  with assms(2) show ?thesis by (auto split: if_splits)
qed

lemma publishChanges_changed:
  assumes "publishChanges fs w h = Some (h', errs, evs)"
    and "f \<in> set (files w)" and "changed fs h f"
  shows "\<exists>ev. evs = [ev] \<and> f \<in> set (Files ev)"
proof -
  from publishChanges_events [OF assms(1)] obtain ev
    where ev: "set (Files ev) = {q \<in> set (files w). changed fs h q}"
      and evs: "evs = (if Files ev = [] then [] else [ev])" by blast
  from ev assms(2,3) have "f \<in> set (Files ev)" by simp
  moreover from this have "Files ev \<noteq> []" by auto
  ultimately show ?thesis using evs by simp
qed

lemma map_filter_mem:
  "x \<in> set xs \<Longrightarrow> g x = Some y \<Longrightarrow> y \<in> set (List.map_filter g xs)"
  by (auto simp: map_filter_def intro!: image_eqI [where x = x])

lemma publishChanges_failure:
  assumes "publishChanges fs w h = Some (h', errs, evs)"
    and "f \<in> set (files w)" and "failure fs h f = Some e"
  shows "e \<in> set errs"
  using publishChanges_errs [OF assms(1)]
    map_filter_mem [of f "files w" "failure fs h" e, OF assms(2,3)] by simp

lemma valid_scanned:
  assumes "publishChanges fs w h = Some (h', errs, evs)"
  shows "valid h' = valid h"
proof (rule ext)
  fix q
  have "reader (scanned fs fv) = reader fv" for fv
    by (simp add: scanned_def split: option.splits sum.splits)
  then show "valid h' q = valid h q"
    using publishChanges_heap [OF assms, of q]
    by (cases "h q") (simp_all add: valid_def)
qed

lemma update_fileData_eq: "(fv\<lparr>fileData := d\<rparr> = fv) = (d = fileData fv)"
  by (cases fv) auto

lemma scanned_changed:
  "h f = Some fv \<Longrightarrow> (scanned fs fv \<noteq> fv) = changed fs h f"
  by (simp add: scanned_def changed_def update_fileData_eq split: option.splits sum.splits)

lemma snapshot_open_error:
  "os_Open fs (fileName fv) = Inl err \<Longrightarrow> snapshot fs fv = Some (Inl (OsError err))"
  by (simp add: snapshot_def)

lemma snapshot_reader:
  "os_Open fs (fileName fv) = Inr openFile \<Longrightarrow> reader fv = Some rd \<Longrightarrow>
   snapshot fs fv = Some (rd openFile)"
  by (simp add: snapshot_def)

lemma snapshot_same_open:
  "os_Open fs2 (fileName fv) = os_Open fs1 (fileName fv) \<Longrightarrow> snapshot fs2 fv = snapshot fs1 fv"
  by (simp add: snapshot_def)

lemma snapshot_tag: "snapshot fs (fv\<lparr>tag := t\<rparr>) = snapshot fs fv"
  by (simp add: snapshot_def split: sum.splits)

lemma NewFile_snapshot:
  assumes "NewFile fs name opts = Inr fv"
  shows "snapshot fs fv = Some (Inr (fileData fv))"
  using assms
  by (auto simp: NewFile_def snapshot_def Let_def split: option.splits sum.splits)

lemma NewFile_reader:
  assumes "NewFile fs name opts = Inr fv"
  shows "\<exists>rd. reader fv = Some rd"
  using assms
  by (auto simp: NewFile_def Let_def split: option.splits sum.splits)

subsection \<open>Options of New\<close>

lemma New_opts_append: "New_opts (xs @ ys) w = New_opts ys (New_opts xs w)"
  by (induction xs arbitrary: w) simp_all

lemma New_opts_zero_interval:
  "New_opts (xs @ WithPollInterval 0 # ys) w = New_opts (xs @ ys) w"
  by (simp add: New_opts_append WithPollInterval_def)

subsection \<open>Facts of the scenarios\<close>

lemma valid_heap_ab: "list_all (valid heap_ab) (files watch_ab)"
  by (simp add: valid_def heap_ab_def watch_ab_def file_a_def file_b_def)

lemma snapshot_a_v2: "snapshot disk_v2 file_a = Some (Inr bytes_v2)"
  by (simp add: snapshot_def disk_v2_def disk_def file_a_def ReadFile_def)

lemma snapshot_a_gone: "snapshot disk_no_a file_a = Some (Inl (OsError (enoent ''open'' ''a.txt'')))"
  by (simp add: snapshot_def disk_no_a_def disk_def file_a_def)

lemma snapshot_a_bad: "snapshot disk_bad_b file_a = Some (Inr bytes_v2)"
  by (simp add: snapshot_def disk_bad_b_def disk_def file_a_def ReadFile_def)

lemma snapshot_b_bad:
  "snapshot disk_bad_b file_b =
     Some (Inl (OsError (PathError ''read'' ''b.txt'' ''input/output error'')))"
  by (simp add: snapshot_def disk_bad_b_def disk_def file_b_def ReadFile_def)

lemma bytes_differ: "bytes_v2 \<noteq> fileData file_a"
  by (simp add: file_a_def bytes_v1_def bytes_v2_def)

lemma RemoveFile_1213: "RemoveFile_loop 0 [1, 2, 1, 3] 1 = [3, 2, 1]"
  using RemoveFile_loop_first [of 0 0 "[1, 2, 1, 3]" 1] by simp

subsection \<open>Claims\<close>

text \<open>
  C1 (the code departs from the claim). \<^verbatim>\<open>WithPollInterval(0)\<close> does return
  \<^verbatim>\<open>ErrInvalidDuration\<close>, but \<^verbatim>\<open>New\<close> drops what its options return: the option
  has no effect wherever it stands in the list, and construction with a zero poll interval
  alone yields a watcher with the default interval of ten seconds and reports nothing.
\<close>

theorem New_zero_interval:
  "snd (WithPollInterval 0 w) = Some ErrInvalidDuration \<and>
   New (opts1 @ WithPollInterval 0 # opts2) = New (opts1 @ opts2) \<and>
   New [WithPollInterval 0] = \<lparr>files = [], pollInterval = 10000000000\<rparr>"
proof -
  have "snd (WithPollInterval 0 w) = Some ErrInvalidDuration"
    by (simp add: WithPollInterval_def)
  moreover have "New (opts1 @ WithPollInterval 0 # opts2) = New (opts1 @ opts2)"
    by (simp only: New_def New_opts_zero_interval)
  moreover have "New [WithPollInterval 0] = \<lparr>files = [], pollInterval = 10000000000\<rparr>"
    by (simp add: New_def WithPollInterval_def Second_def)
  ultimately show ?thesis by blast
qed

text \<open>
  C2 (as stated it fails: the error is not \<^verbatim>\<open>ErrInvalidFile\<close>). For the path
  \<^verbatim>\<open>missing.txt\<close> on a disk without files, \<^verbatim>\<open>NewFile\<close> fails with the error of
  \<^verbatim>\<open>os.Stat\<close>.
\<close>

theorem NewFile_missing_counterexample:
  "os_Stat (disk []) ''missing.txt'' \<noteq> None \<and>
   NewFile (disk []) ''missing.txt'' [] = Inl (OsError (enoent ''stat'' ''missing.txt'')) \<and>
   NewFile (disk []) ''missing.txt'' [] \<noteq> Inl ErrInvalidFile"
  by (simp add: NewFile_def disk_def)

text \<open>
  C2, amended. When \<^verbatim>\<open>os.Stat\<close> reports an error for the path (it does not exist or
  is inaccessible), \<^verbatim>\<open>NewFile\<close> fails with that very error, whatever the options, and
  returns no descriptor.
\<close>

theorem NewFile_stat_error:
  assumes "os_Stat fs name = Some err"
  shows "NewFile fs name opts = Inl (OsError err) \<and> (\<forall>fv. NewFile fs name opts \<noteq> Inr fv)"
  using assms by (simp add: NewFile_def)

theorem NewFile_stat_error_witness:
  "os_Stat (disk [(''a.txt'', Inr bytes_v1)]) ''missing.txt'' = Some (enoent ''stat'' ''missing.txt'') \<and>
   NewFile (disk [(''a.txt'', Inr bytes_v1)]) ''missing.txt'' [WithTag ''x''] =
     Inl (OsError (enoent ''stat'' ''missing.txt'')) \<and>
   (\<forall>fv. NewFile (disk [(''a.txt'', Inr bytes_v1)]) ''missing.txt'' [WithTag ''x''] \<noteq> Inr fv)"
proof -
  have s: "os_Stat (disk [(''a.txt'', Inr bytes_v1)]) ''missing.txt'' =
             Some (enoent ''stat'' ''missing.txt'')"
    by (simp add: disk_def)
  from s NewFile_stat_error [OF s, of "[WithTag ''x'']"] show ?thesis by blast
qed

text \<open>
  C3. In a registry of descriptors made by \<^verbatim>\<open>NewFile\<close>, let the open or the reader
  of a descriptor fail in one pass. The pass reports the error, leaves the descriptor and
  its stored snapshot as they were and does not report the descriptor as changed. If a
  later pass reads the descriptor successfully, it reports no change when the data equal
  the snapshot from before the failure, and it reports the change, and stores the new
  snapshot, when they differ.
\<close>

theorem failed_read_keeps_snapshot:
  assumes reg: "list_all (valid h) (files w)"
    and f: "f \<in> set (files w)" and fv: "h f = Some fv"
    and fail: "snapshot fs1 fv = Some (Inl e)"
    and ok: "snapshot fs2 fv = Some (Inr d)"
  shows "\<exists>h1 errs1 evs1 h2 errs2 evs2.
           publishChanges fs1 w h = Some (h1, errs1, evs1) \<and>
           h1 f = Some fv \<and> e \<in> set errs1 \<and> (\<forall>ev\<in>set evs1. f \<notin> set (Files ev)) \<and>
           publishChanges fs2 w h1 = Some (h2, errs2, evs2) \<and>
           (if d = fileData fv
            then (\<forall>ev\<in>set evs2. f \<notin> set (Files ev)) \<and> h2 f = Some fv
            else (\<exists>ev. evs2 = [ev] \<and> f \<in> set (Files ev)) \<and>
                 h2 f = Some (fv\<lparr>fileData := d\<rparr>))"
proof -
  from publishChanges_total [OF reg] obtain h1 errs1 evs1
    where p1: "publishChanges fs1 w h = Some (h1, errs1, evs1)" by blast
  have sc1: "scanned fs1 fv = fv"
    using fail by (simp add: scanned_def)
  have h1: "h1 f = Some fv"
    using publishChanges_heap [OF p1, of f] f fv sc1 by simp
  have "failure fs1 h f = Some e"
    using fv fail by (simp add: failure_def)
  from publishChanges_failure [OF p1 f this] have e: "e \<in> set errs1" .
  have "\<not> changed fs1 h f"
    using fv fail by (simp add: changed_def)
  from publishChanges_unchanged [OF p1 this]
  have no1: "\<forall>ev\<in>set evs1. f \<notin> set (Files ev)" .
  have "valid h1 = valid h"
    using p1 by (rule valid_scanned)
  with reg have "list_all (valid h1) (files w)" by simp
  from publishChanges_total [OF this] obtain h2 errs2 evs2
    where p2: "publishChanges fs2 w h1 = Some (h2, errs2, evs2)" by blast
  have ch: "changed fs2 h1 f = (d \<noteq> fileData fv)"
    using h1 ok by (simp add: changed_def)
  have sc2: "scanned fs2 fv = fv\<lparr>fileData := d\<rparr>"
    using ok by (simp add: scanned_def)
  have h2: "h2 f = Some (fv\<lparr>fileData := d\<rparr>)"
    using publishChanges_heap [OF p2, of f] f h1 sc2 by simp
  have "if d = fileData fv
        then (\<forall>ev\<in>set evs2. f \<notin> set (Files ev)) \<and> h2 f = Some fv
        else (\<exists>ev. evs2 = [ev] \<and> f \<in> set (Files ev)) \<and> h2 f = Some (fv\<lparr>fileData := d\<rparr>)"
  proof (cases "d = fileData fv")
    case True
    with ch have "\<not> changed fs2 h1 f" by simp
    from publishChanges_unchanged [OF p2 this] True h2 show ?thesis by simp
  next
    case False
    with ch have "changed fs2 h1 f" by simp
    from publishChanges_changed [OF p2 f this] False h2 show ?thesis by simp
  qed
  with p1 h1 e no1 p2 show ?thesis by blast
qed

theorem failed_read_keeps_snapshot_witness:
  "list_all (valid heap_ab) (files watch_ab) \<and> 1 \<in> set (files watch_ab) \<and>
   heap_ab 1 = Some file_a \<and>
   snapshot disk_no_a file_a = Some (Inl (OsError (enoent ''open'' ''a.txt''))) \<and>
   snapshot disk_v2 file_a = Some (Inr bytes_v2) \<and>
   (\<exists>h1 errs1 evs1 h2 errs2 evs2.
      publishChanges disk_no_a watch_ab heap_ab = Some (h1, errs1, evs1) \<and>
      h1 1 = Some file_a \<and> OsError (enoent ''open'' ''a.txt'') \<in> set errs1 \<and>
      (\<forall>ev\<in>set evs1. 1 \<notin> set (Files ev)) \<and>
      publishChanges disk_v2 watch_ab h1 = Some (h2, errs2, evs2) \<and>
      (\<exists>ev. evs2 = [ev] \<and> 1 \<in> set (Files ev)) \<and>
      h2 1 = Some (file_a\<lparr>fileData := bytes_v2\<rparr>))"
proof -
  have m: "1 \<in> set (files watch_ab)" by (simp add: watch_ab_def)
  have a: "heap_ab 1 = Some file_a" by (simp add: heap_ab_def)
  from failed_read_keeps_snapshot [of heap_ab watch_ab 1 file_a disk_no_a
      "OsError (enoent ''open'' ''a.txt'')" disk_v2 bytes_v2,
      OF valid_heap_ab m a snapshot_a_gone snapshot_a_v2]
  have "\<exists>h1 errs1 evs1 h2 errs2 evs2.
      publishChanges disk_no_a watch_ab heap_ab = Some (h1, errs1, evs1) \<and>
      h1 1 = Some file_a \<and> OsError (enoent ''open'' ''a.txt'') \<in> set errs1 \<and>
      (\<forall>ev\<in>set evs1. 1 \<notin> set (Files ev)) \<and>
      publishChanges disk_v2 watch_ab h1 = Some (h2, errs2, evs2) \<and>
      (\<exists>ev. evs2 = [ev] \<and> 1 \<in> set (Files ev)) \<and>
      h2 1 = Some (file_a\<lparr>fileData := bytes_v2\<rparr>)"
    using bytes_differ by simp
  with valid_heap_ab m a snapshot_a_gone snapshot_a_v2 show ?thesis by blast
qed

text \<open>
  C4. In a registry of descriptors made by \<^verbatim>\<open>NewFile\<close>, a pass writes the stored
  snapshot of a descriptor exactly when it detects a change of it. When the data read
  differ from the stored snapshot, the descriptor is in the event of the pass and its
  snapshot becomes the data read; when they are equal, the descriptor is in no event and
  is left as it was.
\<close>

theorem snapshot_written_iff_changed:
  assumes reg: "list_all (valid h) (files w)"
    and f: "f \<in> set (files w)" and fv: "h f = Some fv"
    and ok: "snapshot fs fv = Some (Inr d)"
  shows "\<exists>h' errs evs.
           publishChanges fs w h = Some (h', errs, evs) \<and>
           (if d \<noteq> fileData fv
            then (\<exists>ev. evs = [ev] \<and> f \<in> set (Files ev)) \<and>
                 h' f = Some (fv\<lparr>fileData := d\<rparr>)
            else (\<forall>ev\<in>set evs. f \<notin> set (Files ev)) \<and> h' f = Some fv) \<and>
           (\<forall>g. (h' g \<noteq> h g) = (g \<in> set (files w) \<and> changed fs h g))"
proof -
  from publishChanges_total [OF reg] obtain h' errs evs
    where p: "publishChanges fs w h = Some (h', errs, evs)" by blast
  have ch: "changed fs h f = (d \<noteq> fileData fv)"
    using fv ok by (simp add: changed_def)
  have sc: "scanned fs fv = fv\<lparr>fileData := d\<rparr>"
    using ok by (simp add: scanned_def)
  have h': "h' f = Some (fv\<lparr>fileData := d\<rparr>)"
    using publishChanges_heap [OF p, of f] f fv sc by simp
  have one: "if d \<noteq> fileData fv
        then (\<exists>ev. evs = [ev] \<and> f \<in> set (Files ev)) \<and> h' f = Some (fv\<lparr>fileData := d\<rparr>)
        else (\<forall>ev\<in>set evs. f \<notin> set (Files ev)) \<and> h' f = Some fv"
  proof (cases "d = fileData fv")
    case True
    with ch have "\<not> changed fs h f" by simp
    from publishChanges_unchanged [OF p this] True h' show ?thesis by simp
  next
    case False
    with ch have "changed fs h f" by simp
    from publishChanges_changed [OF p f this] False h' show ?thesis by simp
  qed
  have all: "(h' g \<noteq> h g) = (g \<in> set (files w) \<and> changed fs h g)" for g
  proof (cases "h g")
    case None
    then show ?thesis
      using publishChanges_heap [OF p, of g] by (simp add: changed_def)
  next
    case (Some gv)
    then show ?thesis
      using publishChanges_heap [OF p, of g] scanned_changed [of h g gv fs] by auto
  qed
  from p one all show ?thesis by blast
qed

theorem snapshot_written_iff_changed_witness:
  "list_all (valid heap_ab) (files watch_ab) \<and> 1 \<in> set (files watch_ab) \<and>
   heap_ab 1 = Some file_a \<and> snapshot disk_v2 file_a = Some (Inr bytes_v2) \<and>
   (\<exists>h' errs evs.
      publishChanges disk_v2 watch_ab heap_ab = Some (h', errs, evs) \<and>
      (\<exists>ev. evs = [ev] \<and> 1 \<in> set (Files ev)) \<and>
      h' 1 = Some (file_a\<lparr>fileData := bytes_v2\<rparr>) \<and>
      (\<forall>g. (h' g \<noteq> heap_ab g) = (g \<in> set (files watch_ab) \<and> changed disk_v2 heap_ab g)))"
proof -
  have m: "1 \<in> set (files watch_ab)" by (simp add: watch_ab_def)
  have a: "heap_ab 1 = Some file_a" by (simp add: heap_ab_def)
  from snapshot_written_iff_changed [of heap_ab watch_ab 1 file_a disk_v2 bytes_v2,
      OF valid_heap_ab m a snapshot_a_v2]
  have "\<exists>h' errs evs.
      publishChanges disk_v2 watch_ab heap_ab = Some (h', errs, evs) \<and>
      (\<exists>ev. evs = [ev] \<and> 1 \<in> set (Files ev)) \<and>
      h' 1 = Some (file_a\<lparr>fileData := bytes_v2\<rparr>) \<and>
      (\<forall>g. (h' g \<noteq> heap_ab g) = (g \<in> set (files watch_ab) \<and> changed disk_v2 heap_ab g))"
    using bytes_differ by simp
  with valid_heap_ab m a snapshot_a_v2 show ?thesis by blast
qed

text \<open>
  C5. A registered descriptor whose file reads the same as when the baseline was taken is
  in no event of the pass. First, the baseline taken by \<^verbatim>\<open>NewFile\<close>: if the file opens
  to the same content as at construction (the tag may have been set since), the first pass
  reports nothing for the descriptor and leaves it as it was. Second, the baseline of the
  previous pass: if the file opens to the same content in two consecutive passes, the
  second pass reports nothing for it.
\<close>

theorem unchanged_file_not_reported:
  assumes reg: "list_all (valid h) (files w)"
    and f: "f \<in> set (files w)" and fv: "h f = Some fv"
  shows "(NewFile fs0 name opts = Inr fv0 \<and> fv = fv0\<lparr>tag := t\<rparr> \<and>
          os_Open fs (fileName fv) = os_Open fs0 (fileName fv) \<longrightarrow>
            (\<exists>h' errs evs. publishChanges fs w h = Some (h', errs, evs) \<and>
               (\<forall>ev\<in>set evs. f \<notin> set (Files ev)) \<and> h' f = Some fv)) \<and>
         (os_Open fs2 (fileName fv) = os_Open fs1 (fileName fv) \<longrightarrow>
            (\<exists>h1 errs1 evs1 h2 errs2 evs2.
               publishChanges fs1 w h = Some (h1, errs1, evs1) \<and>
               publishChanges fs2 w h1 = Some (h2, errs2, evs2) \<and>
               (\<forall>ev\<in>set evs2. f \<notin> set (Files ev))))"
proof (intro conjI impI)
  assume a: "NewFile fs0 name opts = Inr fv0 \<and> fv = fv0\<lparr>tag := t\<rparr> \<and>
             os_Open fs (fileName fv) = os_Open fs0 (fileName fv)"
  from a NewFile_snapshot [of fs0 name opts fv0]
  have "snapshot fs0 fv0 = Some (Inr (fileData fv0))" by blast
  with a have "snapshot fs0 fv = Some (Inr (fileData fv))"
    by (simp add: snapshot_tag)
  moreover from a have "snapshot fs fv = snapshot fs0 fv"
    using snapshot_same_open [of fs fv fs0] by blast
  ultimately have sn: "snapshot fs fv = Some (Inr (fileData fv))" by simp
  from publishChanges_total [OF reg] obtain h' errs evs
    where p: "publishChanges fs w h = Some (h', errs, evs)" by blast
  have "\<not> changed fs h f"
    using fv sn by (simp add: changed_def)
  from publishChanges_unchanged [OF p this]
  have no: "\<forall>ev\<in>set evs. f \<notin> set (Files ev)" .
  have "scanned fs fv = fv"
    using sn by (simp add: scanned_def)
  then have "h' f = Some fv"
    using publishChanges_heap [OF p, of f] f fv by simp
  with p no
  show "\<exists>h' errs evs. publishChanges fs w h = Some (h', errs, evs) \<and>
          (\<forall>ev\<in>set evs. f \<notin> set (Files ev)) \<and> h' f = Some fv"
    by blast
next
  assume same: "os_Open fs2 (fileName fv) = os_Open fs1 (fileName fv)"
  from publishChanges_total [OF reg] obtain h1 errs1 evs1
    where p1: "publishChanges fs1 w h = Some (h1, errs1, evs1)" by blast
  have h1: "h1 f = Some (scanned fs1 fv)"
    using publishChanges_heap [OF p1, of f] f fv by simp
  have "valid h1 = valid h"
    using p1 by (rule valid_scanned)
  with reg have "list_all (valid h1) (files w)" by simp
  from publishChanges_total [OF this] obtain h2 errs2 evs2
    where p2: "publishChanges fs2 w h1 = Some (h2, errs2, evs2)" by blast
  have name: "fileName (scanned fs1 fv) = fileName fv"
    by (simp add: scanned_def split: option.splits sum.splits)
  have "snapshot fs1 (scanned fs1 fv) = snapshot fs1 fv"
    by (simp add: scanned_def snapshot_fileData split: option.splits sum.splits)
  moreover from same name
  have "snapshot fs2 (scanned fs1 fv) = snapshot fs1 (scanned fs1 fv)"
    using snapshot_same_open [of fs2 "scanned fs1 fv" fs1] by simp
  ultimately have sn: "snapshot fs2 (scanned fs1 fv) = snapshot fs1 fv" by simp
  have "\<not> changed fs2 h1 f"
    using h1 sn by (simp add: changed_def scanned_def split: option.splits sum.splits)
  from publishChanges_unchanged [OF p2 this]
  have "\<forall>ev\<in>set evs2. f \<notin> set (Files ev)" .
  with p1 p2
  show "\<exists>h1 errs1 evs1 h2 errs2 evs2.
          publishChanges fs1 w h = Some (h1, errs1, evs1) \<and>
          publishChanges fs2 w h1 = Some (h2, errs2, evs2) \<and>
          (\<forall>ev\<in>set evs2. f \<notin> set (Files ev))"
    by blast
qed

theorem unchanged_file_not_reported_witness:
  "list_all (valid heap_ab) (files watch_ab) \<and> 1 \<in> set (files watch_ab) \<and>
   heap_ab 1 = Some file_a \<and>
   NewFile (disk [(''a.txt'', Inr bytes_v1)]) ''a.txt'' [] = Inr file_a \<and>
   file_a = file_a\<lparr>tag := []\<rparr> \<and>
   os_Open disk_v1 (fileName file_a) = os_Open (disk [(''a.txt'', Inr bytes_v1)]) (fileName file_a) \<and>
   (\<exists>h' errs evs. publishChanges disk_v1 watch_ab heap_ab = Some (h', errs, evs) \<and>
      (\<forall>ev\<in>set evs. 1 \<notin> set (Files ev)) \<and> h' 1 = Some file_a) \<and>
   os_Open disk_bad_b (fileName file_a) = os_Open disk_v2 (fileName file_a) \<and>
   (\<exists>h1 errs1 evs1 h2 errs2 evs2.
      publishChanges disk_v2 watch_ab heap_ab = Some (h1, errs1, evs1) \<and>
      publishChanges disk_bad_b watch_ab h1 = Some (h2, errs2, evs2) \<and>
      (\<forall>ev\<in>set evs2. 1 \<notin> set (Files ev)))"
proof -
  have m1: "1 \<in> set (files watch_ab)"
    by (simp add: watch_ab_def)
  have a: "heap_ab 1 = Some file_a"
    by (simp add: heap_ab_def)
  have n: "NewFile (disk [(''a.txt'', Inr bytes_v1)]) ''a.txt'' [] = Inr file_a"
    by (simp add: NewFile_def disk_def ReadFile_def file_a_def)
  have t: "file_a = file_a\<lparr>tag := []\<rparr>"
    by (simp add: file_a_def)
  have o1: "os_Open disk_v1 (fileName file_a) =
            os_Open (disk [(''a.txt'', Inr bytes_v1)]) (fileName file_a)"
    by (simp add: disk_v1_def disk_def file_a_def)
  have o2: "os_Open disk_bad_b (fileName file_a) = os_Open disk_v2 (fileName file_a)"
    by (simp add: disk_bad_b_def disk_v2_def disk_def file_a_def)
  from unchanged_file_not_reported [of heap_ab watch_ab 1 file_a
      "disk [(''a.txt'', Inr bytes_v1)]" "''a.txt''" "[]" file_a "[]" disk_v1,
      OF valid_heap_ab m1 a] n t o1
  have first: "\<exists>h' errs evs. publishChanges disk_v1 watch_ab heap_ab = Some (h', errs, evs) \<and>
      (\<forall>ev\<in>set evs. 1 \<notin> set (Files ev)) \<and> h' 1 = Some file_a"
    by blast
  from unchanged_file_not_reported [of heap_ab watch_ab 1 file_a _ _ _ _ _ _ disk_bad_b disk_v2,
      OF valid_heap_ab m1 a] o2
  have second: "\<exists>h1 errs1 evs1 h2 errs2 evs2.
      publishChanges disk_v2 watch_ab heap_ab = Some (h1, errs1, evs1) \<and>
      publishChanges disk_bad_b watch_ab h1 = Some (h2, errs2, evs2) \<and>
      (\<forall>ev\<in>set evs2. 1 \<notin> set (Files ev))"
    by blast
  from valid_heap_ab m1 a n t o1 first o2 second show ?thesis by blast
qed

text \<open>
  C6. An event is delivered on the event channel only when at least one descriptor of
  the registry changed: a pass delivers at most one event, every delivered event lists at
  least one descriptor, and a pass in which no descriptor changed delivers nothing.
\<close>

theorem event_never_empty:
  assumes "publishChanges fs w h = Some (h', errs, evs)"
  shows "(\<forall>ev\<in>set evs. 1 \<le> length (Files ev)) \<and> length evs \<le> 1 \<and>
         (evs = [] \<longleftrightarrow> (\<forall>f\<in>set (files w). \<not> changed fs h f))"
proof -
  from publishChanges_events [OF assms] obtain ev
    where ev: "set (Files ev) = {q \<in> set (files w). changed fs h q}"
      and evs: "evs = (if Files ev = [] then [] else [ev])" by blast
  from evs have "\<forall>e\<in>set evs. 1 \<le> length (Files e)"
    by (cases "Files ev") auto
  moreover from evs have "length evs \<le> 1" by simp
  moreover have "evs = [] \<longleftrightarrow> (\<forall>f\<in>set (files w). \<not> changed fs h f)"
  proof -
    have "evs = [] \<longleftrightarrow> set (Files ev) = {}" using evs by simp
    also have "\<dots> \<longleftrightarrow> (\<forall>f\<in>set (files w). \<not> changed fs h f)" using ev by auto
    finally show ?thesis .
  qed
  ultimately show ?thesis by blast
qed

theorem event_never_empty_witness:
  "publishChanges (disk [(''a.txt'', Inr bytes_v2), (''b.txt'', Inr bytes_v1)]) watch_ab heap_ab =
     Some (heap_ab(1 \<mapsto> file_a\<lparr>fileData := bytes_v2\<rparr>), [], [Event [1]]) \<and>
   1 \<le> length (Files (Event [1])) \<and> length [Event [1]] \<le> 1 \<and>
   (\<exists>f\<in>set (files watch_ab).
      changed (disk [(''a.txt'', Inr bytes_v2), (''b.txt'', Inr bytes_v1)]) heap_ab f)"
proof -
  have p: "publishChanges (disk [(''a.txt'', Inr bytes_v2), (''b.txt'', Inr bytes_v1)])
             watch_ab heap_ab =
           Some (heap_ab(1 \<mapsto> file_a\<lparr>fileData := bytes_v2\<rparr>), [], [Event [1]])"
    by (simp add: publishChanges_def publishChanges_loop.simps watch_ab_def heap_ab_def
        file_a_def file_b_def disk_def ReadFile_def bytes_v1_def bytes_v2_def)
  from p event_never_empty [OF p] show ?thesis by simp
qed

text \<open>
  C7. In a registry of descriptors made by \<^verbatim>\<open>NewFile\<close>, a failure on one descriptor
  does not keep the pass from the others. The pass sends the error of every descriptor
  whose open or reader fails, in the order of the registry, and its event holds every
  descriptor that changed: with a failure on \<open>y\<close> and a change on \<open>x\<close> in one pass, the
  error of \<open>y\<close> is on the error channel, \<open>x\<close> is in the event and has its new snapshot.
\<close>

theorem error_does_not_stop_pass:
  assumes reg: "list_all (valid h) (files w)"
    and x: "x \<in> set (files w)" and fx: "h x = Some fx"
    and y: "y \<in> set (files w)" and fy: "h y = Some fy"
    and fail: "snapshot fs fy = Some (Inl e)"
    and ok: "snapshot fs fx = Some (Inr d)" and diff: "d \<noteq> fileData fx"
  shows "\<exists>h' errs ev.
           publishChanges fs w h = Some (h', errs, [ev]) \<and>
           e \<in> set errs \<and> errs = List.map_filter (failure fs h) (files w) \<and>
           x \<in> set (Files ev) \<and> y \<notin> set (Files ev) \<and>
           set (Files ev) = {g \<in> set (files w). changed fs h g} \<and>
           h' x = Some (fx\<lparr>fileData := d\<rparr>) \<and> h' y = Some fy"
proof -
  from publishChanges_total [OF reg] obtain h' errs evs
    where p: "publishChanges fs w h = Some (h', errs, evs)" by blast
  have "failure fs h y = Some e"
    using fy fail by (simp add: failure_def)
  from publishChanges_failure [OF p y this] have e: "e \<in> set errs" .
  have chx: "changed fs h x"
    using fx ok diff by (simp add: changed_def)
  have chy: "\<not> changed fs h y"
    using fy fail by (simp add: changed_def)
  from publishChanges_events [OF p] obtain ev
    where ev: "set (Files ev) = {g \<in> set (files w). changed fs h g}"
      and evs: "evs = (if Files ev = [] then [] else [ev])" by blast
  from ev x chx have xin: "x \<in> set (Files ev)" by simp
  then have "Files ev \<noteq> []" by auto
  with evs have evs1: "evs = [ev]" by simp
  from ev chy have yout: "y \<notin> set (Files ev)" by simp
  have "scanned fs fx = fx\<lparr>fileData := d\<rparr>"
    using ok by (simp add: scanned_def)
  then have hx: "h' x = Some (fx\<lparr>fileData := d\<rparr>)"
    using publishChanges_heap [OF p, of x] x fx by simp
  have "scanned fs fy = fy"
    using fail by (simp add: scanned_def)
  then have hy: "h' y = Some fy"
    using publishChanges_heap [OF p, of y] y fy by simp
  from p evs1 e publishChanges_errs [OF p] xin yout ev hx hy show ?thesis by blast
qed

theorem error_does_not_stop_pass_witness:
  "list_all (valid heap_ab) (files watch_ab) \<and>
   1 \<in> set (files watch_ab) \<and> heap_ab 1 = Some file_a \<and>
   2 \<in> set (files watch_ab) \<and> heap_ab 2 = Some file_b \<and>
   snapshot disk_bad_b file_b =
     Some (Inl (OsError (PathError ''read'' ''b.txt'' ''input/output error''))) \<and>
   snapshot disk_bad_b file_a = Some (Inr bytes_v2) \<and> bytes_v2 \<noteq> fileData file_a \<and>
   (\<exists>h' errs ev.
      publishChanges disk_bad_b watch_ab heap_ab = Some (h', errs, [ev]) \<and>
      OsError (PathError ''read'' ''b.txt'' ''input/output error'') \<in> set errs \<and>
      errs = List.map_filter (failure disk_bad_b heap_ab) (files watch_ab) \<and>
      1 \<in> set (Files ev) \<and> 2 \<notin> set (Files ev) \<and>
      set (Files ev) = {g \<in> set (files watch_ab). changed disk_bad_b heap_ab g} \<and>
      h' 1 = Some (file_a\<lparr>fileData := bytes_v2\<rparr>) \<and> h' 2 = Some file_b)"
proof -
  have m1: "1 \<in> set (files watch_ab)" and m2: "2 \<in> set (files watch_ab)"
    by (simp_all add: watch_ab_def)
  have a: "heap_ab 1 = Some file_a" and b: "heap_ab 2 = Some file_b"
    by (simp_all add: heap_ab_def)
  from valid_heap_ab m1 a m2 b snapshot_b_bad snapshot_a_bad bytes_differ
    error_does_not_stop_pass [of heap_ab watch_ab 1 file_a 2 file_b disk_bad_b
      "OsError (PathError ''read'' ''b.txt'' ''input/output error'')" bytes_v2,
      OF valid_heap_ab m1 a m2 b snapshot_b_bad snapshot_a_bad bytes_differ]
  show ?thesis by blast
qed

text \<open>
  C8. \<^verbatim>\<open>RemoveFile\<close> compares pointers and never reads the store: a pointer the
  registry does not hold leaves the watcher as it is, the pointer given loses one
  occurrence if it has any, and every other pointer, whatever the path of its descriptor,
  stays in the registry as often as before.
\<close>

theorem RemoveFile_by_identity:
  "(fl \<notin> set (files w) \<longrightarrow> RemoveFile w fl = w) \<and>
   count_list (files (RemoveFile w fl)) fl = count_list (files w) fl - 1 \<and>
   (\<forall>g. g \<noteq> fl \<longrightarrow> count_list (files (RemoveFile w fl)) g = count_list (files w) g) \<and>
   pollInterval (RemoveFile w fl) = pollInterval w"
  by (simp add: RemoveFile_def RemoveFile_loop_notin RemoveFile_loop_other
      RemoveFile_loop_self)

theorem RemoveFile_by_identity_witness:
  "heap_aa 3 = heap_aa 1 \<and> 3 \<notin> set (files watch_ab) \<and>
   RemoveFile watch_ab 3 = watch_ab \<and>
   count_list (files (RemoveFile watch_ab 3)) 1 = count_list (files watch_ab) 1 \<and>
   pollInterval (RemoveFile watch_ab 3) = pollInterval watch_ab"
proof -
  have "heap_aa 3 = heap_aa 1" by (simp add: heap_aa_def)
  moreover have "3 \<notin> set (files watch_ab)" by (simp add: watch_ab_def)
  ultimately show ?thesis
    using RemoveFile_by_identity [of 3 watch_ab] by simp
qed

text \<open>
  C9. \<^verbatim>\<open>RemoveFile\<close> on a pointer of the registry removes its first occurrence only:
  the last element is written over that slot and the last slot is cut off. The registry
  loses one occurrence of the pointer and nothing else as a multiset, and its order is
  in general not the old order without the pointer.
\<close>

theorem RemoveFile_first_occurrence:
  assumes "fl \<in> set (files w)"
  shows "(\<exists>i<length (files w). files w ! i = fl \<and> (\<forall>j<i. files w ! j \<noteq> fl) \<and>
            files (RemoveFile w fl) = butlast ((files w)[i := last (files w)])) \<and>
         mset (files (RemoveFile w fl)) = mset (files w) - {#fl#} \<and>
         count_list (files (RemoveFile w fl)) fl = count_list (files w) fl - 1 \<and>
         (\<exists>w' f'. f' \<in> set (files w') \<and> files (RemoveFile w' f') \<noteq> remove1 f' (files w'))"
proof -
  from assms have ne: "files w \<noteq> []" by auto
  from RemoveFile_loop_present [OF assms] obtain i
    where i: "i < length (files w)" "files w ! i = fl" "\<forall>j<i. files w ! j \<noteq> fl"
      and r: "RemoveFile_loop 0 (files w) fl =
                take (length (files w) - 1) ((files w)[i := files w ! (length (files w) - 1)])"
    by blast
  from r have "files (RemoveFile w fl) =
      take (length (files w) - 1) ((files w)[i := files w ! (length (files w) - 1)])"
    by (simp add: RemoveFile_def)
  also from ne have "\<dots> = butlast ((files w)[i := last (files w)])"
    by (rule swap_remove_butlast)
  finally have "files (RemoveFile w fl) = butlast ((files w)[i := last (files w)])" .
  with i have first: "\<exists>i<length (files w). files w ! i = fl \<and> (\<forall>j<i. files w ! j \<noteq> fl) \<and>
            files (RemoveFile w fl) = butlast ((files w)[i := last (files w)])"
    by blast
  have ms: "mset (files (RemoveFile w fl)) = mset (files w) - {#fl#}"
    by (simp add: RemoveFile_def RemoveFile_loop_mset)
  have "count (mset (files (RemoveFile w fl))) fl = count (mset (files w)) fl - 1"
    by (simp add: ms)
  then have cnt: "count_list (files (RemoveFile w fl)) fl = count_list (files w) fl - 1"
    by (simp add: count_mset)
  have "RemoveFile_loop 0 [1, 2, 3] 1 = [3, 2]"
    using RemoveFile_loop_first [of 0 0 "[1, 2, 3]" 1] by simp
  then have "(1::nat) \<in> set (files \<lparr>files = [1, 2, 3], pollInterval = 0\<rparr>) \<and>
        files (RemoveFile \<lparr>files = [1, 2, 3], pollInterval = 0\<rparr> 1) \<noteq>
        remove1 1 (files \<lparr>files = [1, 2, 3], pollInterval = 0\<rparr>)"
    by (simp add: RemoveFile_def)
  then have ord: "\<exists>w' f'. f' \<in> set (files w') \<and>
        files (RemoveFile w' f') \<noteq> remove1 f' (files w')"
    by blast
  from first ms cnt ord show ?thesis by blast
qed

theorem RemoveFile_first_occurrence_witness:
  "1 \<in> set (files \<lparr>files = [1, 2, 1, 3], pollInterval = 0\<rparr>) \<and>
   files (RemoveFile \<lparr>files = [1, 2, 1, 3], pollInterval = 0\<rparr> 1) = [3, 2, 1] \<and>
   mset (files (RemoveFile \<lparr>files = [1, 2, 1, 3], pollInterval = 0\<rparr> 1)) = {#1, 2, 3#} \<and>
   count_list (files (RemoveFile \<lparr>files = [1, 2, 1, 3], pollInterval = 0\<rparr> 1)) 1 = 1 \<and>
   Find \<lparr>files = [1, 2, 1, 3], pollInterval = 0\<rparr> heap_ab (\<lambda>h g. True) = [1, 2, 1, 3] \<and>
   Find (RemoveFile \<lparr>files = [1, 2, 1, 3], pollInterval = 0\<rparr> 1) heap_ab (\<lambda>h g. True) = [3, 2, 1]"
proof -
  have m: "1 \<in> set (files \<lparr>files = [1, 2, 1, 3], pollInterval = 0\<rparr>)" by simp
  have r: "files (RemoveFile \<lparr>files = [1, 2, 1, 3], pollInterval = 0\<rparr> 1) = [3, 2, 1]"
    using RemoveFile_1213 by (simp add: RemoveFile_def)
  from RemoveFile_first_occurrence [OF m] m r show ?thesis
    by (simp add: Find_def)
qed

text \<open>
  C10. \<^verbatim>\<open>SetTag\<close> on a descriptor writes the tag and nothing else: the path, the
  reader and the stored snapshot of the descriptor stay, every other descriptor of the
  store stays, the call cannot fail, and \<^verbatim>\<open>GetTag\<close> then returns the tag set last.
\<close>

theorem SetTag_frame:
  assumes "h f = Some fv"
  shows "\<exists>h' fv'. SetTag h f t = Some h' \<and> h' f = Some fv' \<and>
           fileName fv' = fileName fv \<and> reader fv' = reader fv \<and>
           fileData fv' = fileData fv \<and> tag fv' = t \<and>
           (\<forall>g. g \<noteq> f \<longrightarrow> h' g = h g) \<and>
           GetTag h' f = Some t \<and>
           (\<forall>t2. \<exists>h2. SetTag h' f t2 = Some h2 \<and> GetTag h2 f = Some t2)"
  using assms by (simp add: SetTag_def GetTag_def)

theorem SetTag_frame_witness:
  "heap_ab 1 = Some file_a \<and>
   (\<exists>h' fv'. SetTag heap_ab 1 ''config'' = Some h' \<and> h' 1 = Some fv' \<and>
      fileName fv' = ''a.txt'' \<and> reader fv' = Some ReadFile \<and>
      fileData fv' = bytes_v1 \<and> tag fv' = ''config'' \<and>
      (\<forall>g. g \<noteq> 1 \<longrightarrow> h' g = heap_ab g) \<and>
      GetTag h' 1 = Some ''config'' \<and>
      (\<forall>t2. \<exists>h2. SetTag h' 1 t2 = Some h2 \<and> GetTag h2 1 = Some t2))"
proof -
  have a: "heap_ab 1 = Some file_a" by (simp add: heap_ab_def)
  have "fileName file_a = ''a.txt''" "reader file_a = Some ReadFile" "fileData file_a = bytes_v1"
    by (simp_all add: file_a_def)
  with a SetTag_frame [of heap_ab 1 file_a "''config''"] show ?thesis by simp
qed

end
